theory Spec2Isabelle
  imports Main "HOL-Library.Word" "HOL-Library.Stream" "HOL-Library.Sublist" "HOL-Library.DAList"
begin

section \<open>KV Session: a shallow embedding of session.ts\<close>

text \<open>
  The module combines a signed cookie carrying a session id with a key-value store whose
  keys are prefixed by a key space and that id. The embedding follows the session module
  that mod.ts re-exports (src/unnamed/part_001): \<open>createSession\<close>, the class \<open>KvSession\<close>
  with its methods \<open>get\<close>, \<open>set\<close>, \<open>delete\<close>, \<open>list\<close>, \<open>destroy\<close>, \<open>refresh\<close>,
  \<open>#updateId\<close> and \<open>generateId\<close>. The earlier copy of the module kept in src/mod.ts has
  the same class; its \<open>createSession\<close> takes the signing keys as one more option and merges
  the options in the same way.

  Three collaborators are not part of the repository: the key-value engine (\<open>Deno.Kv\<close>),
  the cookie jar (\<open>SecureCookieMap\<close> with its \<open>KeyStack\<close>) and \<open>toHashString\<close>. Each is
  modelled from the interface the specification gives for it and is marked as such.
  Asynchronous calls are awaited one after the other in the source, so every method is a
  sequential state transformer. The random source \<open>crypto.getRandomValues\<close> is an explicit
  stream of bytes that is threaded through the functions drawing from it.
\<close>

subsection \<open>Keys\<close>

text \<open>
  \<open>Deno.KvKeyPart = Uint8Array | string | number | bigint | boolean\<close> and
  \<open>Deno.KvKey = readonly KvKeyPart[]\<close>. The source never inspects a number, so the
  type of JavaScript numbers stays abstract.
\<close>

typedecl jsNumber

datatype kvKeyPart =
    KUint8Array "8 word list"
  | KString string
  | KNumber jsNumber
  | KBigint int
  | KBoolean bool

type_synonym kvKey = "kvKeyPart list"

text \<open>The parameter type \<open>Deno.KvKey | Deno.KvKeyPart\<close> of \<open>get\<close>, \<open>set\<close> and \<open>delete\<close>.\<close>

datatype subKey = Part kvKeyPart | Key kvKey

subsection \<open>The key-value engine\<close>

text \<open>
  The calls a handle receives are recorded in the order they are made, so that the keys an
  operation touches and the order of its writes and deletes can be stated.
\<close>

datatype 'v kvCall =
    KvGet kvKey
  | KvSet kvKey 'v
  | KvDelete kvKey
  | KvList kvKey

fun call_key :: "'v kvCall \<Rightarrow> kvKey" where
  "call_key (KvGet k) = k"
| "call_key (KvSet k v) = k"
| "call_key (KvDelete k) = k"
| "call_key (KvList p) = p"

text \<open>
  A handle on the engine: the entries of the database (a finite map, kept as a list with
  distinct keys in the engine's iteration order), and the calls received so far. The
  interface does not say whether a prefix selector also selects the key that equals the
  prefix; the field \<open>exact_match\<close> leaves both readings open (Deno's engine excludes it).
\<close>

record 'v kv =
  entries :: "(kvKey, 'v) alist"
  exact_match :: bool
  calls :: "'v kvCall list"

definition selects :: "bool \<Rightarrow> kvKey \<Rightarrow> kvKey \<Rightarrow> bool" where
  \<comment> \<open>Modelled from the spec: the prefix selector of \<open>Deno.Kv.list\<close> is not under src/;
     it selects the keys that start with the prefix, the prefix itself included or not.\<close>
  "selects exact p k = (if exact then prefix p k else strict_prefix p k)"

definition kv_get :: "kvKey \<Rightarrow> 'v kv \<Rightarrow> 'v option \<times> 'v kv" where
  \<comment> \<open>Modelled from the spec: \<open>Deno.Kv.get\<close> is not under src/; \<open>get(key)\<close> returns the
     entry or not-found, and does not change the store.\<close>
  "kv_get k h = (DAList.lookup (entries h) k, h\<lparr>calls := calls h @ [KvGet k]\<rparr>)"

definition kv_set :: "kvKey \<Rightarrow> 'v \<Rightarrow> 'v kv \<Rightarrow> 'v kv" where
  \<comment> \<open>Modelled from the spec: \<open>Deno.Kv.set\<close> is not under src/; \<open>set(key, value)\<close> writes the
     value under the key, last write wins.\<close>
  "kv_set k v h = h\<lparr>entries := DAList.update k v (entries h), calls := calls h @ [KvSet k v]\<rparr>"

definition kv_delete :: "kvKey \<Rightarrow> 'v kv \<Rightarrow> 'v kv" where
  \<comment> \<open>Modelled from the spec: \<open>Deno.Kv.delete\<close> is not under src/; \<open>delete(key)\<close> removes
     the entry of the key.\<close>
  "kv_delete k h = h\<lparr>entries := DAList.delete k (entries h), calls := calls h @ [KvDelete k]\<rparr>"

definition kv_list :: "kvKey \<Rightarrow> 'v kv \<Rightarrow> (kvKey \<times> 'v) list \<times> 'v kv" where
  \<comment> \<open>Modelled from the spec: \<open>Deno.Kv.list\<close> is not under src/; \<open>list(prefix)\<close> yields the
     finite sequence of the entries whose key has the prefix, in the engine's order. The
     loops of the source only write keys that are not among the entries still to come and
     only delete the entry just visited, so the sequence selected at the call is the
     sequence the loop sees.\<close>
  "kv_list p h =
     (filter (\<lambda>(k, v). selects (exact_match h) p k) (DAList.impl_of (entries h)),
      h\<lparr>calls := calls h @ [KvList p]\<rparr>)"

subsection \<open>The cookie jar\<close>

record cookieOptions =
  path :: "string option"
  signed :: "bool option"
  overwrite :: "bool option"

datatype cookieWrite =
    CookieSet string string cookieOptions
  | CookieDelete string cookieOptions

text \<open>
  A request is seen through its cookies: for each name the value and, when present, the
  signature sent with it. The signing primitive is a parameter \<open>sign key name value\<close>.
\<close>

type_synonym request = "(string \<times> string \<times> string option) list"

type_synonym signer = "string \<Rightarrow> string \<Rightarrow> string \<Rightarrow> string"

record secureCookieMap =
  request_cookies :: request
  keys :: "string list"
  pending :: "cookieWrite list"

datatype error = TypeError

definition new_KeyStack :: "string list \<Rightarrow> error + string list" where
  \<comment> \<open>Modelled from the spec: the constructor of \<open>KeyStack\<close> is not under src/; the signing
     keys are a non-empty ordered list, and the constructor refuses an empty list with a
     \<open>TypeError\<close>.\<close>
  "new_KeyStack ks = (if ks = [] then Inl TypeError else Inr ks)"

definition new_SecureCookieMap :: "request \<Rightarrow> string list \<Rightarrow> secureCookieMap" where
  \<comment> \<open>Modelled from the spec: \<open>SecureCookieMap\<close> is not under src/; it is constructed from
     the request and an ordered list of signing keys, with nothing to send yet.\<close>
  "new_SecureCookieMap req ks = \<lparr>request_cookies = req, keys = ks, pending = []\<rparr>"

definition verifies :: "signer \<Rightarrow> string list \<Rightarrow> string \<Rightarrow> string \<Rightarrow> string \<Rightarrow> bool" where
  \<comment> \<open>Modelled from the spec: the key stack is not under src/; every key of the list is
     tried for verification.\<close>
  "verifies sign ks name val digest = list_ex (\<lambda>k. sign k name val = digest) ks"

definition cookies_get :: "signer \<Rightarrow> string \<Rightarrow> secureCookieMap \<Rightarrow> string option" where
  \<comment> \<open>Modelled from the spec: \<open>SecureCookieMap.get\<close> is not under src/; \<open>get(name)\<close> verifies
     the signature and returns undefined if the cookie is missing or invalid.\<close>
  "cookies_get sign name m =
     (case map_of (request_cookies m) name of
        None \<Rightarrow> None
      | Some (val, None) \<Rightarrow> None
      | Some (val, Some digest) \<Rightarrow>
          if verifies sign (keys m) name val digest then Some val else None)"

definition cookies_set :: "string \<Rightarrow> string \<Rightarrow> cookieOptions \<Rightarrow> secureCookieMap \<Rightarrow> secureCookieMap" where
  \<comment> \<open>Modelled from the spec: \<open>SecureCookieMap.set\<close> is not under src/; the jar keeps the
     writes to send with the response, in the order they were made.\<close>
  "cookies_set name val opts m = m\<lparr>pending := pending m @ [CookieSet name val opts]\<rparr>"

definition cookies_delete :: "string \<Rightarrow> cookieOptions \<Rightarrow> secureCookieMap \<Rightarrow> secureCookieMap" where
  \<comment> \<open>Modelled from the spec: \<open>SecureCookieMap.delete\<close> is not under src/.\<close>
  "cookies_delete name opts m = m\<lparr>pending := pending m @ [CookieDelete name opts]\<rparr>"

subsection \<open>Session ids\<close>

type_synonym rng = "8 word stream"

definition getRandomValues :: "nat \<Rightarrow> rng \<Rightarrow> 8 word list \<times> rng" where
  \<comment> \<open>Modelled from the spec: \<open>crypto.getRandomValues\<close> is not under src/;
     \<open>getRandomValues(new Uint8Array(n))\<close> gives the next \<open>n\<close> bytes of the random source.\<close>
  "getRandomValues n r = (stake n r, sdrop n r)"

definition hexDigit :: "nat \<Rightarrow> char" where
  \<comment> \<open>Modelled from the spec: the digits of the hex encoding, lower case.\<close>
  "hexDigit n = ''0123456789abcdef'' ! (n mod 16)"

definition toHashString :: "8 word list \<Rightarrow> string" where
  \<comment> \<open>Modelled from the spec: \<open>toHashString\<close> of the standard library is not under src/;
     the id is the hex encoding of the bytes, two digits for each byte.\<close>
  "toHashString bytes = concat (map (\<lambda>b. [hexDigit (unat b div 16), hexDigit (unat b mod 16)]) bytes)"

definition generateId :: "rng \<Rightarrow> string \<times> rng" where
  "generateId r = (let (bytes, r') = getRandomValues 16 r in (toHashString bytes, r'))"

definition hexChars :: "char set" where
  "hexChars = set ''0123456789abcdef''"

text \<open>
  Reading a hex string back into bytes: it is used to state that an id encodes the bytes
  drawn from the random source, and is no part of the module.
\<close>

definition hexValue :: "char \<Rightarrow> nat" where
  "hexValue c = (let n = of_char c in if n < (58::nat) then n - 48 else n - 87)"

fun decodeHex :: "string \<Rightarrow> 8 word list" where
  "decodeHex (h # l # cs) = of_nat (hexValue h * 16 + hexValue l) # decodeHex cs"
| "decodeHex cs = []"

subsection \<open>Options\<close>

text \<open>
  A property of an options object is absent, present with the value \<open>undefined\<close>, or
  present with a value. \<open>Object.assign(target, source)\<close> copies every own property of the
  source onto the target, also one whose value is \<open>undefined\<close>.
\<close>

datatype 'a own_property = Absent | Undefined | Value 'a

record kvSessionOptions =
  cookieName :: "string own_property"
  kvPath :: "string own_property"
  keySpace :: "kvKeyPart own_property"

definition DEFAULT_OPTIONS :: kvSessionOptions where
  "DEFAULT_OPTIONS =
     \<lparr>cookieName = Value ''sid'', kvPath = Undefined, keySpace = Value (KString ''sessions'')\<rparr>"

definition empty_object :: kvSessionOptions where
  "empty_object = \<lparr>cookieName = Absent, kvPath = Absent, keySpace = Absent\<rparr>"

definition assign_prop :: "'a own_property \<Rightarrow> 'a own_property \<Rightarrow> 'a own_property" where
  "assign_prop t s = (case s of Absent \<Rightarrow> t | _ \<Rightarrow> s)"

definition Object_assign :: "kvSessionOptions \<Rightarrow> kvSessionOptions \<Rightarrow> kvSessionOptions" where
  "Object_assign target source =
     \<lparr>cookieName = assign_prop (cookieName target) (cookieName source),
      kvPath = assign_prop (kvPath target) (kvPath source),
      keySpace = assign_prop (keySpace target) (keySpace source)\<rparr>"

subsection \<open>The class KvSession\<close>

record 'v kvSessionInit =
  init_kv :: "'v kv"
  init_id :: string
  init_keySpace :: kvKeyPart
  init_cookies :: secureCookieMap
  init_cookieName :: string

text \<open>The private fields \<open>#kv\<close>, \<open>#id\<close>, \<open>#keyspace\<close>, \<open>#cookies\<close> and \<open>#cookieName\<close>.\<close>

record 'v kvSession =
  this_kv :: "'v kv"
  this_id :: string
  this_keyspace :: kvKey
  this_cookies :: secureCookieMap
  this_cookieName :: string

definition new_KvSession :: "'v kvSessionInit \<Rightarrow> 'v kvSession" where
  "new_KvSession init =
     \<lparr>this_kv = init_kv init,
      this_id = init_id init,
      this_keyspace = [init_keySpace init],
      this_cookies = init_cookies init,
      this_cookieName = init_cookieName init\<rparr>"

definition key :: "'v kvSession \<Rightarrow> kvKey" where
  \<comment> \<open>\<open>get #key\<close>: \<open>this.#keyspace.concat(this.#id)\<close>.\<close>
  "key s = this_keyspace s @ [KString (this_id s)]"

definition normalize_key :: "subKey \<Rightarrow> kvKey" where
  \<comment> \<open>\<open>Array.isArray(key) ? key : [key]\<close>.\<close>
  "normalize_key sk = (case sk of Key k \<Rightarrow> k | Part p \<Rightarrow> [p])"

definition get :: "subKey \<Rightarrow> 'v kvSession \<Rightarrow> 'v option \<times> 'v kvSession" where
  "get sk s =
     (let k = normalize_key sk;
          (res, h) = kv_get (key s @ k) (this_kv s)
      in (res, s\<lparr>this_kv := h\<rparr>))"

definition set_value :: "subKey \<Rightarrow> 'v \<Rightarrow> 'v kvSession \<Rightarrow> 'v kvSession" where
  \<comment> \<open>The method \<open>set\<close>.\<close>
  "set_value sk v s =
     (let k = normalize_key sk
      in s\<lparr>this_kv := kv_set (key s @ k) v (this_kv s)\<rparr>)"

definition delete :: "subKey \<Rightarrow> 'v kvSession \<Rightarrow> 'v kvSession" where
  "delete sk s =
     (let k = normalize_key sk
      in s\<lparr>this_kv := kv_delete (key s @ k) (this_kv s)\<rparr>)"

definition list_entries :: "'v kvSession \<Rightarrow> (kvKey \<times> 'v) list \<times> 'v kvSession" where
  \<comment> \<open>The method \<open>list\<close>: every entry of the iterator is pushed onto \<open>values\<close>.\<close>
  "list_entries s =
     (let (iterator, h) = kv_list (key s) (this_kv s);
          values = foldl (\<lambda>values res. values @ [res]) [] iterator
      in (values, s\<lparr>this_kv := h\<rparr>))"

definition updateId :: "string option \<Rightarrow> 'v kvSession \<Rightarrow> rng \<Rightarrow> 'v kvSession \<times> rng" where
  \<comment> \<open>\<open>#updateId(value?)\<close>: \<open>this.#id = value ?? KvSession.generateId()\<close>, then the cookie
     is set again.\<close>
  "updateId val s r =
     (let (i, r') = (case val of Some v \<Rightarrow> (v, r) | None \<Rightarrow> generateId r);
          s' = s\<lparr>this_id := i\<rparr>
      in (s'\<lparr>this_cookies :=
              cookies_set (this_cookieName s') (this_id s')
                \<lparr>path = Some ''/'', signed = Some True, overwrite = Some True\<rparr>
                (this_cookies s')\<rparr>, r'))"

fun destroy_loop :: "(kvKey \<times> 'v) list \<Rightarrow> 'v kv \<Rightarrow> 'v kv" where
  \<comment> \<open>\<open>for await (const res of iterator) await this.#kv.delete(res.key)\<close>.\<close>
  "destroy_loop [] h = h"
| "destroy_loop (res # iterator) h = destroy_loop iterator (kv_delete (fst res) h)"

definition destroy :: "'v kvSession \<Rightarrow> rng \<Rightarrow> 'v kvSession \<times> rng" where
  "destroy s r =
     (let (iterator, h) = kv_list (key s) (this_kv s);
          s1 = s\<lparr>this_kv := destroy_loop iterator h\<rparr>;
          s2 = s1\<lparr>this_cookies :=
                 cookies_delete (this_cookieName s1)
                   \<lparr>path = Some ''/'', signed = None, overwrite = None\<rparr> (this_cookies s1)\<rparr>
      in updateId None s2 r)"

definition freshKey :: "string \<Rightarrow> string \<Rightarrow> kvKey \<Rightarrow> kvKey" where
  \<comment> \<open>\<open>res.key.map((k) => k === this.#id ? freshId : k)\<close>: strict equality with the string
     \<open>this.#id\<close> holds for a string part with the same characters only.\<close>
  "freshKey i freshId k = map (\<lambda>k. if k = KString i then KString freshId else k) k"

fun refresh_loop :: "string \<Rightarrow> string \<Rightarrow> (kvKey \<times> 'v) list \<Rightarrow> 'v kv \<Rightarrow> 'v kv" where
  "refresh_loop i freshId [] h = h"
| "refresh_loop i freshId (res # iterator) h =
     refresh_loop i freshId iterator
       (kv_delete (fst res) (kv_set (freshKey i freshId (fst res)) (snd res) h))"

definition refresh :: "'v kvSession \<Rightarrow> rng \<Rightarrow> string \<times> 'v kvSession \<times> rng" where
  "refresh s r =
     (let (freshId, r1) = generateId r;
          (iterator, h) = kv_list (key s) (this_kv s);
          s1 = s\<lparr>this_kv := refresh_loop (this_id s) freshId iterator h\<rparr>;
          (s2, r2) = updateId (Some freshId) s1 r1
      in (freshId, s2, r2))"

subsection \<open>createSession\<close>

definition openKv :: "(string option \<Rightarrow> (kvKey, 'v) alist \<times> bool) \<Rightarrow> string own_property \<Rightarrow> 'v kv" where
  \<comment> \<open>Modelled from the spec: \<open>Deno.openKv\<close> is not under src/; \<open>open(path?)\<close> gives a
     handle on the database at the path, or on the default database for \<open>undefined\<close>. The
     databases are a parameter.\<close>
  "openKv dbs p =
     (let (es, exact) = dbs (case p of Value f \<Rightarrow> Some f | _ \<Rightarrow> None)
      in \<lparr>entries = es, exact_match = exact, calls = []\<rparr>)"

definition createSession ::
  "signer \<Rightarrow> (string option \<Rightarrow> (kvKey, 'v) alist \<times> bool) \<Rightarrow> request \<Rightarrow> string list \<Rightarrow>
   kvSessionOptions option \<Rightarrow> rng \<Rightarrow> (error + 'v kvSession \<times> rng) option" where
  \<comment> \<open>The destructured \<open>cookieName\<close> has the TypeScript type \<open>string\<close> and \<open>keySpace\<close> the
     type \<open>Deno.KvKeyPart\<close>; a merged object without such values is outside the typed
     program and has no result (\<open>None\<close>). An exception thrown by the call is \<open>Inl\<close>: the
     constructor of the key stack throws before the store is opened.\<close>
  "createSession sign dbs req signatureKeys options r =
     (let merged = Object_assign (case options of Some o' \<Rightarrow> o' | None \<Rightarrow> empty_object)
                     DEFAULT_OPTIONS
      in case (cookieName merged, keySpace merged) of
           (Value cookieName', Value keySpace') \<Rightarrow>
             Some (case new_KeyStack signatureKeys of
                     Inl e \<Rightarrow> Inl e
                   | Inr sessionKeyStack \<Rightarrow>
                       (let h = openKv dbs (kvPath merged);
                            cookies = new_SecureCookieMap req sessionKeyStack;
                            (i, r') = (case cookies_get sign cookieName' cookies of
                                         Some v \<Rightarrow> (v, r)
                                       | None \<Rightarrow> generateId r);
                            cookies' = cookies_set cookieName' i
                                         \<lparr>path = Some ''/'', signed = None, overwrite = None\<rparr>
                                         cookies
                        in Inr (new_KvSession
                                  \<lparr>init_kv = h, init_id = i, init_keySpace = keySpace',
                                   init_cookies = cookies', init_cookieName = cookieName'\<rparr>,
                                r')))
         | _ \<Rightarrow> None)"

subsection \<open>Observations and sample data\<close>

text \<open>The calls a handle received between two of its states.\<close>

definition calls_since :: "'v kv \<Rightarrow> 'v kv \<Rightarrow> 'v kvCall list" where
  "calls_since h h' = drop (length (calls h)) (calls h')"

text \<open>A call stays in the key space \<open>ks\<close> when the first part of its key is \<open>ks\<close>.\<close>

definition in_keySpace :: "kvKeyPart \<Rightarrow> 'v kvCall \<Rightarrow> bool" where
  "in_keySpace ks c = (case call_key c of [] \<Rightarrow> False | p # _ \<Rightarrow> p = ks)"

text \<open>
  Sample stores and sessions for the concrete instances below. A sample store is only
  built from a list with distinct keys, given in the order of the keys (the engine's
  iteration order).
\<close>

definition example_store :: "(kvKey \<times> string) list \<Rightarrow> string kv" where
  "example_store xs = \<lparr>entries = DAList.Alist xs, exact_match = False, calls = []\<rparr>"

definition example_kv :: "string kv" where
  "example_kv =
     example_store
        [([KString ''sessions'', KString ''A'', KString ''A'', KString ''x''], ''self''),
         ([KString ''sessions'', KString ''A'', KString ''name''], ''bob''),
         ([KString ''sessions'', KString ''B'', KString ''name''], ''eve'')]"

definition example_rng :: rng where
  "example_rng =
     [0xde, 0xad, 0xbe, 0xef, 0x00, 0x01, 0x02, 0x03, 0x10, 0x20, 0x30, 0x40,
      0x7f, 0x80, 0xff, 0xa5] @- sconst 0"

definition example_session :: "string \<Rightarrow> kvKeyPart \<Rightarrow> string kv \<Rightarrow> string kvSession" where
  "example_session i ks h =
     new_KvSession \<lparr>init_kv = h, init_id = i, init_keySpace = ks,
                    init_cookies = new_SecureCookieMap [] [''secret''], init_cookieName = ''sid''\<rparr>"

section \<open>Properties of the engine and of the loops\<close>

lemma lookup_kv_set: "DAList.lookup (entries (kv_set k v h)) = (DAList.lookup (entries h))(k \<mapsto> v)"
  by (rule ext) (simp add: kv_set_def DAList.lookup_update)

lemma lookup_kv_delete: "DAList.lookup (entries (kv_delete k h)) = (DAList.lookup (entries h))(k := None)"
  by (simp add: kv_delete_def)

lemma exact_match_kv_set [simp]: "exact_match (kv_set k v h) = exact_match h"
  by (simp add: kv_set_def)

lemma exact_match_kv_delete [simp]: "exact_match (kv_delete k h) = exact_match h"
  by (simp add: kv_delete_def)

lemma calls_kv_set [simp]: "calls (kv_set k v h) = calls h @ [KvSet k v]"
  by (simp add: kv_set_def)

lemma calls_kv_delete [simp]: "calls (kv_delete k h) = calls h @ [KvDelete k]"
  by (simp add: kv_delete_def)

lemma exact_match_refresh_loop [simp]: "exact_match (refresh_loop i f es h) = exact_match h"
  by (induction es arbitrary: h) simp_all

lemma exact_match_destroy_loop [simp]: "exact_match (destroy_loop es h) = exact_match h"
  by (induction es arbitrary: h) simp_all

lemma calls_refresh_loop:
  "calls (refresh_loop i f es h) =
     calls h @ concat (map (\<lambda>res. [KvSet (freshKey i f (fst res)) (snd res), KvDelete (fst res)]) es)"
  by (induction es arbitrary: h) simp_all

lemma calls_destroy_loop:
  "calls (destroy_loop es h) = calls h @ map (\<lambda>res. KvDelete (fst res)) es"
  by (induction es arbitrary: h) simp_all

lemma refresh_loop_frame:
  "k \<notin> fst ` set es \<Longrightarrow> k \<notin> freshKey i f ` fst ` set es \<Longrightarrow>
   DAList.lookup (entries (refresh_loop i f es h)) k = DAList.lookup (entries h) k"
  by (induction es arbitrary: h) (auto simp: lookup_kv_set lookup_kv_delete)

lemma refresh_loop_moved:
  "distinct (map fst es) \<Longrightarrow> (k, v) \<in> set es \<Longrightarrow> freshKey i f k \<notin> fst ` set es \<Longrightarrow>
   (\<forall>k' \<in> fst ` set es. freshKey i f k' = freshKey i f k \<longrightarrow> k' = k) \<Longrightarrow>
   DAList.lookup (entries (refresh_loop i f es h)) (freshKey i f k) = Some v"
proof (induction es arbitrary: h)
  case Nil
  then show ?case by simp
next
  case (Cons res es)
  show ?case
  proof (cases "fst res = k")
    case True
    with Cons.prems have v: "snd res = v" and notin: "k \<notin> fst ` set es"
      by (cases res; force)+
    have ne: "freshKey i f k \<noteq> k" using Cons.prems(3) True by auto
    have "freshKey i f k \<notin> freshKey i f ` fst ` set es"
    proof
      assume "freshKey i f k \<in> freshKey i f ` fst ` set es"
      then obtain k' where k': "k' \<in> fst ` set es" "freshKey i f k' = freshKey i f k" by force
      then have "k' \<in> fst ` set (res # es)" by auto
      with Cons.prems(4) k'(2) have "k' = k" by blast
      with k'(1) notin show False by simp
    qed
    moreover have "freshKey i f k \<notin> fst ` set es" using Cons.prems(3) by auto
    ultimately show ?thesis
      using True v ne by (simp add: refresh_loop_frame lookup_kv_set lookup_kv_delete)
  next
    case False
    with Cons.prems have "(k, v) \<in> set es" by auto
    moreover have "distinct (map fst es)" using Cons.prems(1) by simp
    moreover have "freshKey i f k \<notin> fst ` set es" using Cons.prems(3) by auto
    moreover have "\<forall>k' \<in> fst ` set es. freshKey i f k' = freshKey i f k \<longrightarrow> k' = k"
      using Cons.prems(4) by auto
    ultimately show ?thesis by (simp add: Cons.IH)
  qed
qed

lemma refresh_loop_removed:
  "distinct (map fst es) \<Longrightarrow> k \<in> fst ` set es \<Longrightarrow>
   (\<forall>k' \<in> fst ` set es. freshKey i f k' = k \<longrightarrow> k' = k) \<Longrightarrow>
   DAList.lookup (entries (refresh_loop i f es h)) k = None"
proof (induction es arbitrary: h)
  case Nil
  then show ?case by simp
next
  case (Cons res es)
  show ?case
  proof (cases "fst res = k")
    case True
    with Cons.prems have notin: "k \<notin> fst ` set es" by auto
    have "k \<notin> freshKey i f ` fst ` set es"
    proof
      assume "k \<in> freshKey i f ` fst ` set es"
      then obtain k' where k': "k' \<in> fst ` set es" "freshKey i f k' = k" by force
      then have "k' \<in> fst ` set (res # es)" by auto
      with Cons.prems(3) k'(2) have "k' = k" by blast
      with k'(1) notin show False by simp
    qed
    with notin True show ?thesis
      by (simp add: refresh_loop_frame lookup_kv_set lookup_kv_delete)
  next
    case False
    with Cons.prems have "k \<in> fst ` set es" by auto
    moreover have "distinct (map fst es)" using Cons.prems(1) by simp
    moreover have "\<forall>k' \<in> fst ` set es. freshKey i f k' = k \<longrightarrow> k' = k"
      using Cons.prems(3) by auto
    ultimately show ?thesis by (simp add: Cons.IH)
  qed
qed

lemma destroy_loop_lookup:
  "DAList.lookup (entries (destroy_loop es h)) k =
     (if k \<in> fst ` set es then None else DAList.lookup (entries h) k)"
  by (induction es arbitrary: h) (auto simp: lookup_kv_delete)

lemma selects_prefix: "selects e p k \<Longrightarrow> prefix p k"
  by (auto simp: selects_def strict_prefix_def split: if_splits)

lemma kv_list_calls [simp]: "calls (snd (kv_list p h)) = calls h @ [KvList p]"
  by (simp add: kv_list_def)

lemma kv_list_entries [simp]: "entries (snd (kv_list p h)) = entries h"
  by (simp add: kv_list_def)

lemma kv_list_exact_match [simp]: "exact_match (snd (kv_list p h)) = exact_match h"
  by (simp add: kv_list_def)

lemma in_kv_list_iff:
  "(k, v) \<in> set (fst (kv_list p h)) \<longleftrightarrow>
     selects (exact_match h) p k \<and> DAList.lookup (entries h) k = Some v"
  by (auto simp: kv_list_def DAList.lookup.rep_eq)

lemma distinct_kv_list: "distinct (map fst (fst (kv_list p h)))"
  using DAList.impl_of_distinct [of "entries h"]
  by (simp add: kv_list_def distinct_map_filter)

lemma kv_list_prefix: "(k, v) \<in> set (fst (kv_list p h)) \<Longrightarrow> prefix p k"
  by (auto simp: in_kv_list_iff dest: selects_prefix)

lemma kv_list_empty_iff:
  "fst (kv_list p h) = [] \<longleftrightarrow>
     (\<forall>k. selects (exact_match h) p k \<longrightarrow> DAList.lookup (entries h) k = None)"
proof
  assume "fst (kv_list p h) = []"
  then have "\<And>k v. (k, v) \<notin> set (fst (kv_list p h))" by simp
  then have "\<And>k v. selects (exact_match h) p k \<Longrightarrow> DAList.lookup (entries h) k \<noteq> Some v"
    by (simp add: in_kv_list_iff)
  then show "\<forall>k. selects (exact_match h) p k \<longrightarrow> DAList.lookup (entries h) k = None"
    by (metis option.exhaust)
next
  assume a: "\<forall>k. selects (exact_match h) p k \<longrightarrow> DAList.lookup (entries h) k = None"
  have "set (fst (kv_list p h)) = {}"
  proof (rule ccontr)
    assume "set (fst (kv_list p h)) \<noteq> {}"
    then obtain k v where "(k, v) \<in> set (fst (kv_list p h))"
      by (cases "fst (kv_list p h)") auto
    with a show False by (auto simp: in_kv_list_iff)
  qed
  then show "fst (kv_list p h) = []" by simp
qed

lemma length_freshKey [simp]: "length (freshKey i f k) = length k"
  by (simp add: freshKey_def)

lemma freshKey_append [simp]: "freshKey i f (k @ k') = freshKey i f k @ freshKey i f k'"
  by (simp add: freshKey_def)

lemma freshKey_Cons:
  "freshKey i f (x # k) = (if x = KString i then KString f else x) # freshKey i f k"
  by (simp add: freshKey_def)

lemma freshKey_Nil [simp]: "freshKey i f [] = []"
  by (simp add: freshKey_def)

lemma freshKey_same [simp]: "freshKey i i k = k"
  by (induction k) (simp_all add: freshKey_Cons)

lemma freshKey_unchanged: "KString i \<notin> set k \<Longrightarrow> freshKey i f k = k"
  by (induction k) (auto simp: freshKey_Cons)

lemma freshKey_nth:
  "n < length k \<Longrightarrow> freshKey i f k ! n = (if k ! n = KString i then KString f else k ! n)"
  by (simp add: freshKey_def)

lemma freshKey_inj:
  "KString f \<notin> set k \<Longrightarrow> KString f \<notin> set k' \<Longrightarrow> freshKey i f k' = freshKey i f k \<Longrightarrow> k' = k"
proof (induction k arbitrary: k')
  case Nil
  then show ?case by (simp add: freshKey_def)
next
  case (Cons x k)
  then obtain y l where k': "k' = y # l" by (cases k') (auto simp: freshKey_def)
  with Cons.prems have "freshKey i f l = freshKey i f k"
    and xy: "(if y = KString i then KString f else y) = (if x = KString i then KString f else x)"
    by (simp_all add: freshKey_Cons)
  with Cons k' have "l = k" by simp
  moreover have "y = x" using xy Cons.prems(1,2) k' by (auto split: if_splits)
  ultimately show ?case using k' by simp
qed

lemma freshKey_same_prefix:
  assumes "prefix (q @ [KString i]) k" and "prefix (q @ [KString i]) k'"
    and "freshKey i f k' = k"
  shows "k' = k"
proof -
  from assms(1) obtain t where k: "k = q @ KString i # t" by (auto simp: prefix_def)
  from assms(2) obtain t' where k': "k' = q @ KString i # t'" by (auto simp: prefix_def)
  from assms(3) k k' have "f = i"
    by (simp add: freshKey_Cons)
  then have "freshKey i f k' = k'" by simp
  with assms(3) show ?thesis by simp
qed

section \<open>Properties of the session methods\<close>

lemma Object_assign_DEFAULT_OPTIONS: "Object_assign target DEFAULT_OPTIONS = DEFAULT_OPTIONS"
  by (simp add: Object_assign_def DEFAULT_OPTIONS_def assign_prop_def)

lemma createSession_unfold:
  "createSession sign dbs req signatureKeys options r =
     Some (if signatureKeys = [] then Inl TypeError
           else (let cookies = new_SecureCookieMap req signatureKeys;
                     (i, r') = (case cookies_get sign ''sid'' cookies of
                                  Some v \<Rightarrow> (v, r)
                                | None \<Rightarrow> generateId r)
                 in Inr (new_KvSession
                           \<lparr>init_kv = openKv dbs Undefined, init_id = i,
                            init_keySpace = KString ''sessions'',
                            init_cookies = cookies_set ''sid'' i
                               \<lparr>path = Some ''/'', signed = None, overwrite = None\<rparr> cookies,
                            init_cookieName = ''sid''\<rparr>, r')))"
  by (simp add: createSession_def Object_assign_DEFAULT_OPTIONS)
     (simp add: DEFAULT_OPTIONS_def new_KeyStack_def Let_def)

lemma createSession_empty_keys:
  "createSession sign dbs req [] options r = Some (Inl TypeError)"
  by (simp add: createSession_unfold)

lemma hexDigit_hexChars: "hexDigit n \<in> hexChars"
proof -
  have "n mod 16 < length ''0123456789abcdef''" by simp
  then show ?thesis unfolding hexDigit_def hexChars_def by (rule nth_mem)
qed

lemma length_toHashString: "length (toHashString bytes) = 2 * length bytes"
  by (induction bytes) (simp_all add: toHashString_def)

lemma set_toHashString: "set (toHashString bytes) \<subseteq> hexChars"
  by (auto simp: toHashString_def hexDigit_hexChars)

lemma generateId_eq: "generateId r = (toHashString (stake 16 r), sdrop 16 r)"
  by (simp add: generateId_def getRandomValues_def)

lemma hexValue_hexDigit: "n < 16 \<Longrightarrow> hexValue (hexDigit n) = n"
proof -
  assume "n < 16"
  then have "n \<in> set [0..<16]" by simp
  moreover have "list_all (\<lambda>n. hexValue (hexDigit n) = n) [0..<16]"
    by code_simp
  ultimately show ?thesis by (simp only: list_all_iff)
qed

lemma decodeHex_byte:
  "of_nat (hexValue (hexDigit (unat b div 16)) * 16 + hexValue (hexDigit (unat b mod 16))) =
     (b :: 8 word)"
proof -
  have "unat b < 256" using unsigned_less [of b, where 'a = nat] by simp
  then have "unat b div 16 < 16" by simp
  then show ?thesis by (simp add: hexValue_hexDigit)
qed

lemma decodeHex_toHashString: "decodeHex (toHashString bytes) = bytes"
  by (induction bytes)
     (simp_all add: toHashString_def decodeHex_byte del: of_nat_add of_nat_mult)

lemma updateId_None_rng: "snd (updateId None s r) = snd (generateId r)"
  by (simp add: updateId_def Let_def split: prod.splits)

lemma updateId_None_id: "this_id (fst (updateId None s r)) = fst (generateId r)"
  by (simp add: updateId_def Let_def split: prod.splits)

lemma destroy_id: "this_id (fst (destroy s r)) = fst (generateId r)"
  by (simp add: destroy_def Let_def updateId_None_id split: prod.splits)

lemma refresh_id:
  "fst (refresh s r) = fst (generateId r) \<and> this_id (fst (snd (refresh s r))) = fst (generateId r)"
  by (simp add: refresh_def Let_def updateId_def split: prod.splits)

lemma cookies_get_None_iff:
  "cookies_get sign name (new_SecureCookieMap req ks) = None \<longleftrightarrow>
     (map_of req name = None \<or> (\<exists>v. map_of req name = Some (v, None)) \<or>
      (\<exists>v d. map_of req name = Some (v, Some d) \<and> (\<forall>k \<in> set ks. sign k name v \<noteq> d)))"
  by (auto simp: cookies_get_def new_SecureCookieMap_def verifies_def list_ex_iff
           split: option.splits)

lemma cookies_get_Some:
  "map_of req name = Some (v, Some d) \<Longrightarrow> k \<in> set ks \<Longrightarrow> sign k name v = d \<Longrightarrow>
   cookies_get sign name (new_SecureCookieMap req ks) = Some v"
  by (auto simp: cookies_get_def new_SecureCookieMap_def verifies_def list_ex_iff)

lemma refresh_unfold:
  "refresh s r =
     (fst (generateId r),
      s\<lparr>this_kv := refresh_loop (this_id s) (fst (generateId r))
                     (fst (kv_list (key s) (this_kv s))) (snd (kv_list (key s) (this_kv s))),
        this_id := fst (generateId r),
        this_cookies := cookies_set (this_cookieName s) (fst (generateId r))
                          \<lparr>path = Some ''/'', signed = Some True, overwrite = Some True\<rparr>
                          (this_cookies s)\<rparr>,
      snd (generateId r))"
  by (simp add: refresh_def updateId_def Let_def split: prod.splits)

lemma destroy_unfold:
  "destroy s r =
     (s\<lparr>this_kv := destroy_loop (fst (kv_list (key s) (this_kv s)))
                     (snd (kv_list (key s) (this_kv s))),
        this_id := fst (generateId r),
        this_cookies := cookies_set (this_cookieName s) (fst (generateId r))
                          \<lparr>path = Some ''/'', signed = Some True, overwrite = Some True\<rparr>
                          (cookies_delete (this_cookieName s)
                             \<lparr>path = Some ''/'', signed = None, overwrite = None\<rparr>
                             (this_cookies s))\<rparr>,
      snd (generateId r))"
  by (simp add: destroy_def updateId_def Let_def split: prod.splits)

lemma refresh_old_prefix_empty:
  "fst (kv_list (key s) (this_kv (fst (snd (refresh s r))))) = []"
proof -
  define i where "i = this_id s"
  define f where "f = fst (generateId r)"
  define p where "p = key s"
  define h where "h = this_kv s"
  define listed where "listed = fst (kv_list p h)"
  define h' where "h' = refresh_loop i f listed (snd (kv_list p h))"
  have p: "p = this_keyspace s @ [KString i]" by (simp add: p_def key_def i_def)
  have kv: "this_kv (fst (snd (refresh s r))) = h'"
    by (simp add: refresh_unfold h'_def listed_def p_def h_def i_def f_def)
  have "DAList.lookup (entries h') k = None" if sel: "selects (exact_match h) p k" for k
  proof (cases "k \<in> fst ` set listed")
    case True
    have "\<forall>k' \<in> fst ` set listed. freshKey i f k' = k \<longrightarrow> k' = k"
    proof (intro ballI impI)
      fix k' assume "k' \<in> fst ` set listed" and eq: "freshKey i f k' = k"
      then have "prefix p k'" by (auto simp: listed_def dest: kv_list_prefix)
      moreover have "prefix p k" using sel by (rule selects_prefix)
      ultimately show "k' = k" using eq unfolding p by (metis freshKey_same_prefix)
    qed
    with True show ?thesis
      unfolding h'_def by (intro refresh_loop_removed) (simp_all add: listed_def distinct_kv_list)
  next
    case False
    have none: "DAList.lookup (entries h) k = None"
    proof (cases "DAList.lookup (entries h) k")
      case (Some v)
      with sel have "(k, v) \<in> set listed" by (simp add: listed_def in_kv_list_iff)
      with False show ?thesis by force
    qed simp
    have "k \<notin> freshKey i f ` fst ` set listed"
    proof
      assume "k \<in> freshKey i f ` fst ` set listed"
      then obtain k' where k': "k' \<in> fst ` set listed" and eq: "freshKey i f k' = k" by force
      then have "prefix p k'" by (auto simp: listed_def dest: kv_list_prefix)
      moreover have "prefix p k" using sel by (rule selects_prefix)
      ultimately have "k' = k" using eq unfolding p by (metis freshKey_same_prefix)
      with k' False show False by simp
    qed
    with False none show ?thesis
      unfolding h'_def by (simp add: refresh_loop_frame)
  qed
  then have "fst (kv_list p h') = []"
    by (simp add: kv_list_empty_iff h'_def)
  then show ?thesis by (simp add: kv p_def)
qed

lemma refresh_entry_moved:
  assumes ks: "KString (this_id s) \<notin> set (this_keyspace s)"
    and ne: "fst (generateId r) \<noteq> this_id s"
    and distinct_targets:
      "inj_on (freshKey (this_id s) (fst (generateId r)))
         (fst ` set (fst (kv_list (key s) (this_kv s))))"
    and kv: "(k, v) \<in> set (fst (kv_list (key s) (this_kv s)))"
  shows "\<exists>sub. k = key s @ sub \<and>
           DAList.lookup (entries (this_kv (fst (snd (refresh s r)))))
             (key (fst (snd (refresh s r))) @ freshKey (this_id s) (fst (generateId r)) sub) = Some v"
proof -
  define i where "i = this_id s"
  define f where "f = fst (generateId r)"
  define p where "p = key s"
  define h where "h = this_kv s"
  define listed where "listed = fst (kv_list p h)"
  define h' where "h' = refresh_loop i f listed (snd (kv_list p h))"
  have p: "p = this_keyspace s @ [KString i]" by (simp add: p_def key_def i_def)
  have kvh: "this_kv (fst (snd (refresh s r))) = h'"
    by (simp add: refresh_unfold h'_def listed_def p_def h_def i_def f_def)
  have key': "key (fst (snd (refresh s r))) = this_keyspace s @ [KString f]"
    by (simp add: refresh_unfold key_def f_def)
  have kl: "(k, v) \<in> set listed" using kv by (simp add: listed_def p_def h_def)
  then have "prefix p k" by (auto simp: listed_def dest: kv_list_prefix)
  then obtain sub where sub: "k = p @ sub" by (auto simp: prefix_def)
  have fk: "freshKey i f k = this_keyspace s @ [KString f] @ freshKey i f sub"
    using ks by (simp add: sub p freshKey_Cons freshKey_unchanged i_def)
  have notin: "freshKey i f k \<notin> fst ` set listed"
  proof
    assume "freshKey i f k \<in> fst ` set listed"
    then obtain v' where "(freshKey i f k, v') \<in> set listed" by force
    then have "prefix p (freshKey i f k)" by (auto simp: listed_def dest: kv_list_prefix)
    then obtain t where "freshKey i f k = this_keyspace s @ KString i # t"
      by (auto simp: prefix_def p)
    then have "f = i" by (simp add: fk)
    with ne show False by (simp add: f_def i_def)
  qed
  have inj: "\<forall>k' \<in> fst ` set listed. freshKey i f k' = freshKey i f k \<longrightarrow> k' = k"
  proof (intro ballI impI)
    fix k' assume "k' \<in> fst ` set listed" and eq: "freshKey i f k' = freshKey i f k"
    moreover have "k \<in> fst ` set listed" using kl by force
    moreover have "inj_on (freshKey i f) (fst ` set listed)"
      using distinct_targets by (simp add: listed_def p_def h_def i_def f_def)
    ultimately show "k' = k" by (auto dest: inj_onD)
  qed
  have "DAList.lookup (entries h') (freshKey i f k) = Some v"
    unfolding h'_def using kl notin inj
    by (intro refresh_loop_moved) (simp_all add: listed_def distinct_kv_list)
  then have "DAList.lookup (entries h') (this_keyspace s @ [KString f] @ freshKey i f sub) = Some v"
    unfolding fk .
  then have "k = key s @ sub \<and>
           DAList.lookup (entries (this_kv (fst (snd (refresh s r)))))
             (key (fst (snd (refresh s r))) @ freshKey (this_id s) (fst (generateId r)) sub) = Some v"
    using sub by (simp add: kvh key' p_def i_def f_def)
  then show ?thesis by (rule exI)
qed

lemma unused_id_distinct_targets:
  assumes "\<forall>(k, v) \<in> set es. KString f \<notin> set k"
  shows "inj_on (freshKey i f) (fst ` set es)"
proof (rule inj_onI)
  fix k k' assume "k \<in> fst ` set es" and "k' \<in> fst ` set es"
    and eq: "freshKey i f k = freshKey i f k'"
  with assms have "KString f \<notin> set k" and "KString f \<notin> set k'" by auto
  then show "k = k'" using eq by (intro freshKey_inj [of f k' k i]) simp_all
qed

lemma get_unfold:
  "get sk s = (DAList.lookup (entries (this_kv s)) (key s @ normalize_key sk),
               s\<lparr>this_kv := snd (kv_get (key s @ normalize_key sk) (this_kv s))\<rparr>)"
  by (simp add: get_def kv_get_def Let_def)

lemma calls_since_get:
  "calls_since (this_kv s) (this_kv (snd (get sk s))) = [KvGet (key s @ normalize_key sk)]"
  by (simp add: calls_since_def get_unfold kv_get_def)

lemma calls_since_set_value:
  "calls_since (this_kv s) (this_kv (set_value sk v s)) = [KvSet (key s @ normalize_key sk) v]"
  by (simp add: calls_since_def set_value_def)

lemma calls_since_delete:
  "calls_since (this_kv s) (this_kv (delete sk s)) = [KvDelete (key s @ normalize_key sk)]"
  by (simp add: calls_since_def delete_def)

lemma list_entries_unfold:
  "list_entries s = (fst (kv_list (key s) (this_kv s)),
                     s\<lparr>this_kv := snd (kv_list (key s) (this_kv s))\<rparr>)"
proof -
  have "foldl (\<lambda>values res. values @ [res]) acc xs = acc @ xs" for acc and xs :: "(kvKey \<times> 'a) list"
    by (induction xs arbitrary: acc) simp_all
  then show ?thesis by (simp add: list_entries_def Let_def split: prod.splits)
qed

lemma calls_since_list_entries:
  "calls_since (this_kv s) (this_kv (snd (list_entries s))) = [KvList (key s)]"
  by (simp add: calls_since_def list_entries_unfold)

lemma calls_since_destroy:
  "calls_since (this_kv s) (this_kv (fst (destroy s r))) =
     KvList (key s) # map (\<lambda>res. KvDelete (fst res)) (fst (kv_list (key s) (this_kv s)))"
  by (simp add: calls_since_def destroy_unfold calls_destroy_loop)

lemma calls_since_refresh:
  "calls_since (this_kv s) (this_kv (fst (snd (refresh s r)))) =
     KvList (key s) #
     concat (map (\<lambda>res. [KvSet (freshKey (this_id s) (fst (generateId r)) (fst res)) (snd res),
                          KvDelete (fst res)])
                 (fst (kv_list (key s) (this_kv s))))"
  by (simp add: calls_since_def refresh_unfold calls_refresh_loop)

lemma refresh_loop_append:
  "refresh_loop i f (xs @ ys) h = refresh_loop i f ys (refresh_loop i f xs h)"
  by (induction xs arbitrary: h) simp_all

lemma destroy_old_prefix_empty:
  "fst (kv_list (key s) (this_kv (fst (destroy s r)))) = []"
proof -
  define h where "h = this_kv s"
  define listed where "listed = fst (kv_list (key s) h)"
  have kv: "this_kv (fst (destroy s r)) = destroy_loop listed (snd (kv_list (key s) h))"
    by (simp add: destroy_unfold listed_def h_def)
  have "DAList.lookup (entries (destroy_loop listed (snd (kv_list (key s) h)))) k = None"
    if sel: "selects (exact_match h) (key s) k" for k
  proof (cases "DAList.lookup (entries h) k")
    case None
    then show ?thesis by (simp add: destroy_loop_lookup)
  next
    case (Some v)
    with sel have "(k, v) \<in> set listed" by (simp add: listed_def in_kv_list_iff)
    then have "k \<in> fst ` set listed" by force
    then show ?thesis by (simp add: destroy_loop_lookup)
  qed
  then show ?thesis by (simp add: kv kv_list_empty_iff)
qed

lemma destroy_lookup_subset:
  "DAList.lookup (entries (this_kv s)) k = None \<Longrightarrow>
   DAList.lookup (entries (this_kv (fst (destroy s r)))) k = None"
  by (simp add: destroy_unfold destroy_loop_lookup)

lemma example_session_simps [simp]:
  "this_kv (example_session i ks h) = h"
  "this_id (example_session i ks h) = i"
  "this_keyspace (example_session i ks h) = [ks]"
  "this_cookieName (example_session i ks h) = ''sid''"
  "key (example_session i ks h) = [ks, KString i]"
  by (simp_all add: example_session_def new_KvSession_def key_def)

lemma example_kv_impl:
  "DAList.impl_of (entries example_kv) =
        [([KString ''sessions'', KString ''A'', KString ''A'', KString ''x''], ''self''),
         ([KString ''sessions'', KString ''A'', KString ''name''], ''bob''),
         ([KString ''sessions'', KString ''B'', KString ''name''], ''eve'')]"
  by (simp add: example_kv_def example_store_def Alist_inverse)

lemma example_kv_fields [simp]: "exact_match example_kv = False" "calls example_kv = []"
  by (simp_all add: example_kv_def example_store_def)

lemma example_kv_list:
  "fst (kv_list [KString ''sessions'', KString ''A''] example_kv) =
        [([KString ''sessions'', KString ''A'', KString ''A'', KString ''x''], ''self''),
         ([KString ''sessions'', KString ''A'', KString ''name''], ''bob'')]"
  by (simp add: kv_list_def example_kv_impl selects_def)

lemma this_keyspace_preserved [simp]:
  "this_keyspace (fst (snd (refresh s r))) = this_keyspace s"
  "this_keyspace (fst (destroy s r)) = this_keyspace s"
  "this_keyspace (snd (get sk s)) = this_keyspace s"
  "this_keyspace (set_value sk v s) = this_keyspace s"
  "this_keyspace (delete sk s) = this_keyspace s"
  "this_keyspace (snd (list_entries s)) = this_keyspace s"
  by (simp_all add: refresh_unfold destroy_unfold get_unfold set_value_def delete_def
        list_entries_unfold)

lemma example_store_fields [simp]:
  "exact_match (example_store xs) = False" "calls (example_store xs) = []"
  by (simp_all add: example_store_def)

lemma example_store_impl:
  "distinct (map fst xs) \<Longrightarrow> DAList.impl_of (entries (example_store xs)) = xs"
  by (simp add: example_store_def Alist_inverse)

lemma example_store_lookup:
  "distinct (map fst xs) \<Longrightarrow> DAList.lookup (entries (example_store xs)) = map_of xs"
  by (simp add: DAList.lookup.rep_eq example_store_impl)

lemma generateId_sconst_0:
  "generateId (sconst 0) = (''00000000000000000000000000000000'', sconst 0)"
proof -
  have "stake 16 (sconst (0::8 word)) = [0,0,0,0,0,0,0,0,0,0,0,0,0,0,0,0]"
    by (simp add: eval_nat_numeral)
  moreover have "sdrop 16 (sconst (0::8 word)) = sconst 0"
    by (simp add: eval_nat_numeral)
  ultimately show ?thesis
    by (simp add: generateId_eq toHashString_def hexDigit_def)
qed

lemma generateId_example_rng:
  "generateId example_rng = (''deadbeef00010203102030407f80ffa5'', sconst 0)"
proof -
  have "stake 16 example_rng =
     [0xde, 0xad, 0xbe, 0xef, 0x00, 0x01, 0x02, 0x03, 0x10, 0x20, 0x30, 0x40,
      0x7f, 0x80, 0xff, 0xa5]"
    by (simp add: example_rng_def eval_nat_numeral)
  moreover have "sdrop 16 example_rng = sconst 0"
    by (simp add: example_rng_def eval_nat_numeral)
  ultimately show ?thesis
    by (simp add: generateId_eq toHashString_def hexDigit_def)
qed

section \<open>Creating a session\<close>

text \<open>
  C1. The claim: an option the caller supplies (\<open>cookieName\<close>, \<open>keySpace\<close>, \<open>kvPath\<close>) is
  used by the session, and the defaults apply to omitted options only. The source calls
  \<open>Object.assign(options ?? {}, DEFAULT_OPTIONS)\<close>, which copies the three defaults over
  whatever the caller gave (\<open>Object_assign_DEFAULT_OPTIONS\<close>). At the call below the caller
  asks for the cookie \<open>session_id\<close>, the key space \<open>app\<close> and the database \<open>./db\<close>; the
  session uses \<open>sid\<close>, \<open>sessions\<close> and the default database.
\<close>

theorem createSession_explicit_options_overridden:
  "map_option (map_sum id (\<lambda>(s, r'). (this_cookieName s, this_keyspace s, this_kv s)))
     (createSession (\<lambda>k n v. k @ n @ v)
        (\<lambda>p. if p = Some ''./db''
             then (DAList.update [KString ''app'', KString ''u''] ''x'' DAList.empty, True)
             else (DAList.empty, False))
        [] [''secret'']
        (Some \<lparr>cookieName = Value ''session_id'', kvPath = Value ''./db'',
               keySpace = Value (KString ''app'')\<rparr>)
        (sconst 0)) =
   Some (Inr (''sid'', [KString ''sessions''],
              \<lparr>entries = DAList.empty, exact_match = False, calls = []\<rparr>))"
  by (simp add: createSession_def Object_assign_def assign_prop_def DEFAULT_OPTIONS_def
        new_KeyStack_def openKv_def new_KvSession_def Let_def split: prod.splits)

text \<open>
  C7. When the request carries the session cookie (the session reads the cookie \<open>sid\<close>)
  with a signature that one of the signing keys produces, \<open>createSession\<close> gives a session
  whose id is the value of the cookie, and the random source is handed back untouched: no
  id was generated.
\<close>

theorem createSession_verified_cookie:
  assumes "map_of req ''sid'' = Some (v, Some digest)"
    and "k \<in> set signatureKeys"
    and "sign k ''sid'' v = digest"
  shows "\<exists>s. createSession sign dbs req signatureKeys options r = Some (Inr (s, r)) \<and>
             this_cookieName s = ''sid'' \<and> this_id s = v"
proof -
  have "signatureKeys \<noteq> []" using assms(2) by auto
  then show ?thesis
    using cookies_get_Some [of req "''sid''" v digest k signatureKeys sign] assms
    by (simp add: createSession_unfold new_KvSession_def Let_def)
qed

theorem createSession_verified_cookie_witness:
  "map_of [(''sid'', (''abc'', Some ''k1sidabc''))] ''sid'' = Some (''abc'', Some ''k1sidabc'') \<and>
   ''k1'' \<in> set [''k0'', ''k1''] \<and>
   (\<lambda>k n v. k @ n @ v) ''k1'' ''sid'' ''abc'' = ''k1sidabc'' \<and>
   (\<exists>s. createSession (\<lambda>k n v. k @ n @ v)
          (\<lambda>p. (DAList.empty :: (kvKey, string) alist, False))
          [(''sid'', (''abc'', Some ''k1sidabc''))] [''k0'', ''k1''] None (sconst 0) =
            Some (Inr (s, sconst 0)) \<and>
        this_cookieName s = ''sid'' \<and> this_id s = ''abc'')"
  using createSession_verified_cookie [of "[(''sid'', (''abc'', Some ''k1sidabc''))]" "''abc''"
      "''k1sidabc''" "''k1''" "[''k0'', ''k1'']" "\<lambda>k n v. k @ n @ v"
      "\<lambda>p. (DAList.empty :: (kvKey, string) alist, False)" None "sconst 0"]
  by simp

text \<open>
  C8. With a non-empty list of signing keys (the key stack refuses an empty one, whatever
  the cookie: \<open>createSession_empty_keys\<close>), when the session cookie is missing, carries no
  signature, or carries a signature that no signing key produces, \<open>createSession\<close> throws
  nothing and returns a session. Its id is what \<open>generateId\<close> makes of the next 16 bytes
  of the random source: 32 hexadecimal characters that read back as exactly those bytes,
  which are consumed. The last pending cookie write sets the session cookie to that id at
  path \<open>/\<close>.
\<close>

theorem createSession_fallback:
  assumes "signatureKeys \<noteq> []"
    and "map_of req ''sid'' = None \<or> (\<exists>v. map_of req ''sid'' = Some (v, None)) \<or>
         (\<exists>v d. map_of req ''sid'' = Some (v, Some d) \<and>
                (\<forall>k \<in> set signatureKeys. sign k ''sid'' v \<noteq> d))"
  shows "\<exists>s r'. createSession sign dbs req signatureKeys options r = Some (Inr (s, r')) \<and>
               generateId r = (this_id s, r') \<and>
               this_id s = toHashString (stake 16 r) \<and> r' = sdrop 16 r \<and>
               decodeHex (this_id s) = stake 16 r \<and>
               length (this_id s) = 32 \<and> set (this_id s) \<subseteq> hexChars \<and>
               this_cookieName s = ''sid'' \<and>
               pending (this_cookies s) \<noteq> [] \<and>
               last (pending (this_cookies s)) =
                 CookieSet ''sid'' (this_id s)
                   \<lparr>path = Some ''/'', signed = None, overwrite = None\<rparr>"
proof -
  have "cookies_get sign ''sid'' (new_SecureCookieMap req signatureKeys) = None"
    using assms(2) by (simp only: cookies_get_None_iff)
  then show ?thesis
    using assms(1)
    by (simp add: createSession_unfold new_KvSession_def Let_def generateId_eq
                  length_toHashString set_toHashString decodeHex_toHashString cookies_set_def)
qed

theorem createSession_fallback_witness:
  "[''k0'', ''k1''] \<noteq> [] \<and>
   (\<exists>v d. map_of [(''sid'', (''abc'', Some ''forged''))] ''sid'' = Some (v, Some d) \<and>
          (\<forall>k \<in> set [''k0'', ''k1'']. (\<lambda>k n v. k @ n @ v) k ''sid'' v \<noteq> d)) \<and>
   (\<exists>s. createSession (\<lambda>k n v. k @ n @ v)
          (\<lambda>p. (DAList.empty :: (kvKey, string) alist, False))
          [(''sid'', (''abc'', Some ''forged''))] [''k0'', ''k1''] None example_rng =
            Some (Inr (s, sconst 0)) \<and>
        this_id s = ''deadbeef00010203102030407f80ffa5'' \<and>
        decodeHex (this_id s) =
          [0xde, 0xad, 0xbe, 0xef, 0x00, 0x01, 0x02, 0x03, 0x10, 0x20, 0x30, 0x40,
      0x7f, 0x80, 0xff, 0xa5] \<and>
        this_cookieName s = ''sid'' \<and>
        last (pending (this_cookies s)) =
          CookieSet ''sid'' ''deadbeef00010203102030407f80ffa5''
            \<lparr>path = Some ''/'', signed = None, overwrite = None\<rparr>)"
proof -
  have bytes: "stake 16 example_rng =
     [0xde, 0xad, 0xbe, 0xef, 0x00, 0x01, 0x02, 0x03, 0x10, 0x20, 0x30, 0x40,
      0x7f, 0x80, 0xff, 0xa5]"
    by (simp add: example_rng_def eval_nat_numeral)
  show ?thesis
    using createSession_fallback [of "[''k0'', ''k1'']" "[(''sid'', (''abc'', Some ''forged''))]"
      "\<lambda>k n v. k @ n @ v" "\<lambda>p. (DAList.empty :: (kvKey, string) alist, False)" None
      example_rng]
    by (auto simp: generateId_example_rng bytes)
qed

text \<open>
  C10. \<open>generateId\<close> takes the next 16 bytes of the random source, consumes them, and
  returns their hex encoding: a string of exactly 32 characters, each a hexadecimal digit,
  that reads back as those 16 bytes. \<open>destroy\<close> and \<open>refresh\<close> assign that string as the
  id (and \<open>refresh\<close> returns it), and so does \<open>createSession\<close> when the signing keys are
  not empty and the cookie is missing or invalid; each of them consumes the 16 bytes.
\<close>

theorem generateId_hex32:
  "generateId r = (toHashString (stake 16 r), sdrop 16 r) \<and>
   length (stake 16 r) = 16 \<and>
   decodeHex (fst (generateId r)) = stake 16 r \<and>
   length (fst (generateId r)) = 32 \<and> set (fst (generateId r)) \<subseteq> hexChars \<and>
   this_id (fst (destroy s r)) = fst (generateId r) \<and>
   snd (destroy s r) = snd (generateId r) \<and>
   fst (refresh s r) = fst (generateId r) \<and>
   this_id (fst (snd (refresh s r))) = fst (generateId r) \<and>
   snd (snd (refresh s r)) = snd (generateId r) \<and>
   (ks \<noteq> [] \<and> cookies_get sign ''sid'' (new_SecureCookieMap req ks) = None \<longrightarrow>
      map_option (map_sum id (\<lambda>(s, r'). (this_id s, r')))
        (createSession sign dbs req ks options r) =
      Some (Inr (generateId r)))"
proof (intro conjI impI)
  show "generateId r = (toHashString (stake 16 r), sdrop 16 r)"
    by (rule generateId_eq)
  show "length (stake 16 r) = 16" by simp
  show "decodeHex (fst (generateId r)) = stake 16 r"
    by (simp add: generateId_eq decodeHex_toHashString)
  show "length (fst (generateId r)) = 32"
    by (simp add: generateId_eq length_toHashString)
  show "set (fst (generateId r)) \<subseteq> hexChars"
    by (simp add: generateId_eq set_toHashString)
  show "this_id (fst (destroy s r)) = fst (generateId r)"
    by (rule destroy_id)
  show "snd (destroy s r) = snd (generateId r)"
    by (simp add: destroy_unfold)
  show "fst (refresh s r) = fst (generateId r)"
    and "this_id (fst (snd (refresh s r))) = fst (generateId r)"
    by (simp_all add: refresh_id)
  show "snd (snd (refresh s r)) = snd (generateId r)"
    by (simp add: refresh_unfold)
next
  assume "ks \<noteq> [] \<and> cookies_get sign ''sid'' (new_SecureCookieMap req ks) = None"
  then show "map_option (map_sum id (\<lambda>(s, r'). (this_id s, r')))
        (createSession sign dbs req ks options r) =
      Some (Inr (generateId r))"
    by (simp add: createSession_unfold new_KvSession_def Let_def split: prod.splits)
qed

theorem generateId_hex32_witness:
  "[''secret''] \<noteq> [] \<and>
   cookies_get (\<lambda>k n v. k @ n @ v) ''sid'' (new_SecureCookieMap [] [''secret'']) = None \<and>
   map_option (map_sum id (\<lambda>(s, r'). (this_id s, r')))
     (createSession (\<lambda>k n v. k @ n @ v)
        (\<lambda>p. (DAList.empty :: (kvKey, string) alist, False)) [] [''secret''] None example_rng) =
     Some (Inr (''deadbeef00010203102030407f80ffa5'', sconst 0)) \<and>
   decodeHex ''deadbeef00010203102030407f80ffa5'' =
     [0xde, 0xad, 0xbe, 0xef, 0x00, 0x01, 0x02, 0x03, 0x10, 0x20, 0x30, 0x40,
      0x7f, 0x80, 0xff, 0xa5]"
proof -
  have h: "cookies_get (\<lambda>k n v. k @ n @ v) ''sid'' (new_SecureCookieMap [] [''secret'']) = None"
    by (simp add: cookies_get_def new_SecureCookieMap_def)
  have bytes: "stake 16 example_rng =
     [0xde, 0xad, 0xbe, 0xef, 0x00, 0x01, 0x02, 0x03, 0x10, 0x20, 0x30, 0x40,
      0x7f, 0x80, 0xff, 0xa5]"
    by (simp add: example_rng_def eval_nat_numeral)
  note t = generateId_hex32 [of example_rng _ "[''secret'']" "\<lambda>k n v. k @ n @ v" "[]"
      "\<lambda>p. (DAList.empty :: (kvKey, string) alist, False)" None]
  have 1: "map_option (map_sum id (\<lambda>(s, r'). (this_id s, r')))
     (createSession (\<lambda>k n v. k @ n @ v)
        (\<lambda>p. (DAList.empty :: (kvKey, string) alist, False)) [] [''secret''] None example_rng) =
     Some (Inr (generateId example_rng))"
    using h t by blast
  have 2: "decodeHex (fst (generateId example_rng)) = stake 16 example_rng"
    using t by blast
  from 1 2 h show ?thesis
    unfolding generateId_example_rng fst_conv bytes by simp
qed

section \<open>Namespacing\<close>

text \<open>
  C4. In a session with key space \<open>ks\<close> and id \<open>i\<close>, a single key part is normalised to
  a one-element sequence and a sequence is kept; \<open>get\<close>, \<open>set\<close> and \<open>delete\<close> each make
  one call to the engine, on the key \<open>[ks, i]\<close> followed by the normalised sub-key; and the
  keys two sessions with different ids can form are disjoint.
\<close>

theorem fullKey_namespace_isolation:
  "this_keyspace s = [ks] \<longrightarrow>
     normalize_key (Part p) = [p] \<and> normalize_key (Key k) = k \<and>
     fst (get sk s) =
       DAList.lookup (entries (this_kv s)) ([ks, KString (this_id s)] @ normalize_key sk) \<and>
     calls_since (this_kv s) (this_kv (snd (get sk s))) =
       [KvGet ([ks, KString (this_id s)] @ normalize_key sk)] \<and>
     calls_since (this_kv s) (this_kv (set_value sk v s)) =
       [KvSet ([ks, KString (this_id s)] @ normalize_key sk) v] \<and>
     calls_since (this_kv s) (this_kv (delete sk s)) =
       [KvDelete ([ks, KString (this_id s)] @ normalize_key sk)] \<and>
     (this_keyspace s' = [ks] \<and> this_id s' \<noteq> this_id s \<longrightarrow>
        range (\<lambda>sk. key s @ normalize_key sk) \<inter> range (\<lambda>sk. key s' @ normalize_key sk) = {})"
proof (intro impI conjI)
  assume ks: "this_keyspace s = [ks]"
  have key: "key s = [ks, KString (this_id s)]" by (simp add: key_def ks)
  show "normalize_key (Part p) = [p]" and "normalize_key (Key k) = k"
    by (simp_all add: normalize_key_def)
  show "fst (get sk s) =
          DAList.lookup (entries (this_kv s)) ([ks, KString (this_id s)] @ normalize_key sk)"
    by (simp add: get_unfold key)
  show "calls_since (this_kv s) (this_kv (snd (get sk s))) =
          [KvGet ([ks, KString (this_id s)] @ normalize_key sk)]"
    by (simp only: calls_since_get key)
  show "calls_since (this_kv s) (this_kv (set_value sk v s)) =
          [KvSet ([ks, KString (this_id s)] @ normalize_key sk) v]"
    by (simp only: calls_since_set_value key)
  show "calls_since (this_kv s) (this_kv (delete sk s)) =
          [KvDelete ([ks, KString (this_id s)] @ normalize_key sk)]"
    by (simp only: calls_since_delete key)
  assume "this_keyspace s' = [ks] \<and> this_id s' \<noteq> this_id s"
  then show "range (\<lambda>sk. key s @ normalize_key sk) \<inter> range (\<lambda>sk. key s' @ normalize_key sk) = {}"
    by (auto simp: key_def ks)
qed

theorem fullKey_namespace_isolation_witness:
  "this_keyspace (example_session ''A'' (KString ''sessions'') example_kv) = [KString ''sessions''] \<and>
   fst (get (Part (KString ''name'')) (example_session ''A'' (KString ''sessions'') example_kv)) =
     DAList.lookup (entries example_kv) [KString ''sessions'', KString ''A'', KString ''name''] \<and>
   calls_since example_kv
     (this_kv (set_value (Key [KString ''cart'', KBigint 7]) ''tea''
        (example_session ''A'' (KString ''sessions'') example_kv))) =
     [KvSet [KString ''sessions'', KString ''A'', KString ''cart'', KBigint 7] ''tea''] \<and>
   range (\<lambda>sk. key (example_session ''A'' (KString ''sessions'') example_kv) @ normalize_key sk) \<inter>
   range (\<lambda>sk. key (example_session ''B'' (KString ''sessions'') example_kv) @ normalize_key sk) = {}"
  using fullKey_namespace_isolation
    [of "example_session ''A'' (KString ''sessions'') example_kv" "KString ''sessions''"
        "KString ''name''" "[KString ''cart'', KBigint 7]" "Part (KString ''name'')" "''tea''"
        "example_session ''B'' (KString ''sessions'') example_kv"]
    fullKey_namespace_isolation
    [of "example_session ''A'' (KString ''sessions'') example_kv" "KString ''sessions''"
        "KString ''name''" "[KString ''cart'', KBigint 7]" "Key [KString ''cart'', KBigint 7]" "''tea''"
        "example_session ''B'' (KString ''sessions'') example_kv"]
  by (simp add: normalize_key_def)

text \<open>
  C9. In a session with key space \<open>ks\<close>, every call that \<open>get\<close>, \<open>set\<close>, \<open>delete\<close>,
  \<open>list\<close> and \<open>destroy\<close> make to the engine is on a key whose first part is \<open>ks\<close>, and so
  is every entry \<open>list\<close> returns; the same holds for every call of \<open>refresh\<close>, its
  rewritten keys included, provided \<open>ks\<close> is not the string of the session's id.
\<close>

theorem keySpace_partition:
  "this_keyspace s = [ks] \<longrightarrow>
     (\<forall>c \<in> set (calls_since (this_kv s) (this_kv (snd (get sk s)))). in_keySpace ks c) \<and>
     (\<forall>c \<in> set (calls_since (this_kv s) (this_kv (set_value sk v s))). in_keySpace ks c) \<and>
     (\<forall>c \<in> set (calls_since (this_kv s) (this_kv (delete sk s))). in_keySpace ks c) \<and>
     (\<forall>c \<in> set (calls_since (this_kv s) (this_kv (snd (list_entries s)))). in_keySpace ks c) \<and>
     (\<forall>(k, v) \<in> set (fst (list_entries s)). prefix [ks] k) \<and>
     (\<forall>c \<in> set (calls_since (this_kv s) (this_kv (fst (destroy s r)))). in_keySpace ks c) \<and>
     (ks \<noteq> KString (this_id s) \<longrightarrow>
        (\<forall>c \<in> set (calls_since (this_kv s) (this_kv (fst (snd (refresh s r))))).
           in_keySpace ks c))"
proof (intro impI conjI ballI)
  assume ks: "this_keyspace s = [ks]"
  have key: "key s = [ks, KString (this_id s)]" by (simp add: key_def ks)
  have listed: "prefix (ks # [KString (this_id s)]) k"
    if "(k, v) \<in> set (fst (kv_list (key s) (this_kv s)))" for k v
    using kv_list_prefix [OF that] by (simp add: key)
  { fix c assume "c \<in> set (calls_since (this_kv s) (this_kv (snd (get sk s))))"
    then show "in_keySpace ks c" by (simp add: calls_since_get key in_keySpace_def) }
  { fix c assume "c \<in> set (calls_since (this_kv s) (this_kv (set_value sk v s)))"
    then show "in_keySpace ks c" by (simp add: calls_since_set_value key in_keySpace_def) }
  { fix c assume "c \<in> set (calls_since (this_kv s) (this_kv (delete sk s)))"
    then show "in_keySpace ks c" by (simp add: calls_since_delete key in_keySpace_def) }
  { fix c assume "c \<in> set (calls_since (this_kv s) (this_kv (snd (list_entries s))))"
    then show "in_keySpace ks c" by (simp add: calls_since_list_entries key in_keySpace_def) }
  { fix x assume "x \<in> set (fst (list_entries s))"
    then have "prefix (ks # [KString (this_id s)]) (fst x)"
      using listed [of "fst x" "snd x"] by (simp add: list_entries_unfold)
    then show "case x of (k, v) \<Rightarrow> prefix [ks] k"
      by (cases x) (auto simp: prefix_def) }
  { fix c assume "c \<in> set (calls_since (this_kv s) (this_kv (fst (destroy s r))))"
    then consider "c = KvList (key s)"
      | k v where "(k, v) \<in> set (fst (kv_list (key s) (this_kv s)))" "c = KvDelete k"
      by (auto simp: calls_since_destroy)
    then show "in_keySpace ks c"
    proof cases
      case 1
      then show ?thesis by (simp add: key in_keySpace_def)
    next
      case 2
      then show ?thesis using listed [of k v] by (auto simp: in_keySpace_def prefix_def)
    qed }
  { fix c assume ne: "ks \<noteq> KString (this_id s)"
      and "c \<in> set (calls_since (this_kv s) (this_kv (fst (snd (refresh s r)))))"
    then consider "c = KvList (key s)"
      | k v where "(k, v) \<in> set (fst (kv_list (key s) (this_kv s)))" "c = KvDelete k"
      | k v where "(k, v) \<in> set (fst (kv_list (key s) (this_kv s)))"
          "c = KvSet (freshKey (this_id s) (fst (generateId r)) k) v"
      by (auto simp: calls_since_refresh)
    then show "in_keySpace ks c"
    proof cases
      case 1
      then show ?thesis by (simp add: key in_keySpace_def)
    next
      case 2
      then show ?thesis using listed [of k v] by (auto simp: in_keySpace_def prefix_def)
    next
      case 3
      from listed [OF 3(1)] obtain t where "k = ks # t" by (auto simp: prefix_def)
      with ne 3(2) show ?thesis by (simp add: in_keySpace_def freshKey_Cons)
    qed }
qed

theorem keySpace_partition_witness:
  "this_keyspace (example_session ''A'' (KString ''sessions'') example_kv) = [KString ''sessions''] \<and>
   KString ''sessions'' \<noteq> KString (this_id (example_session ''A'' (KString ''sessions'') example_kv)) \<and>
   list_all (in_keySpace (KString ''sessions''))
     (calls_since (this_kv (example_session ''A'' (KString ''sessions'') example_kv))
        (this_kv (fst (snd (refresh (example_session ''A'' (KString ''sessions'') example_kv)
                                    (sconst 0)))))) \<and>
   list_all (in_keySpace (KString ''sessions''))
     (calls_since (this_kv (example_session ''A'' (KString ''sessions'') example_kv))
        (this_kv (fst (destroy (example_session ''A'' (KString ''sessions'') example_kv)
                               (sconst 0)))))"
  using keySpace_partition [of "example_session ''A'' (KString ''sessions'') example_kv"
      "KString ''sessions''" "Part (KString ''name'')" "''tea''" "sconst 0"]
  by (simp add: list_all_iff)

section \<open>Refreshing a session\<close>

text \<open>
  C5. For every entry \<open>refresh\<close> enumerates, the key it writes is the entry's key with
  each part equal to the old id replaced by the fresh id, at whatever index; no other key
  is written; the rewritten key has the length of the original and agrees with it on all
  other parts.
\<close>

theorem refresh_rewrites_every_part:
  "(\<forall>(k, v) \<in> set (fst (kv_list (key s) (this_kv s))).
      KvSet (freshKey (this_id s) (fst (generateId r)) k) v \<in>
        set (calls_since (this_kv s) (this_kv (fst (snd (refresh s r)))))) \<and>
   (\<forall>k' v. KvSet k' v \<in> set (calls_since (this_kv s) (this_kv (fst (snd (refresh s r))))) \<longrightarrow>
      (\<exists>k. (k, v) \<in> set (fst (kv_list (key s) (this_kv s))) \<and>
           k' = freshKey (this_id s) (fst (generateId r)) k)) \<and>
   (\<forall>k. length (freshKey (this_id s) (fst (generateId r)) k) = length k \<and>
        (\<forall>n < length k. freshKey (this_id s) (fst (generateId r)) k ! n =
           (if k ! n = KString (this_id s) then KString (fst (generateId r)) else k ! n)))"
proof (intro conjI allI impI ballI)
  fix x assume "x \<in> set (fst (kv_list (key s) (this_kv s)))"
  moreover obtain k v where "x = (k, v)" by (cases x)
  ultimately show "case x of (k, v) \<Rightarrow>
      KvSet (freshKey (this_id s) (fst (generateId r)) k) v \<in>
        set (calls_since (this_kv s) (this_kv (fst (snd (refresh s r)))))"
    by (force simp: calls_since_refresh)
next
  fix k' v
  assume "KvSet k' v \<in> set (calls_since (this_kv s) (this_kv (fst (snd (refresh s r)))))"
  then obtain res where "res \<in> set (fst (kv_list (key s) (this_kv s)))"
    and "k' = freshKey (this_id s) (fst (generateId r)) (fst res)" and "v = snd res"
    by (auto simp: calls_since_refresh)
  then show "\<exists>k. (k, v) \<in> set (fst (kv_list (key s) (this_kv s))) \<and>
           k' = freshKey (this_id s) (fst (generateId r)) k"
    by (intro exI [of _ "fst res"]) simp
next
  fix k
  show "length (freshKey (this_id s) (fst (generateId r)) k) = length k"
    by simp
  fix n assume "n < length k"
  then show "freshKey (this_id s) (fst (generateId r)) k ! n =
           (if k ! n = KString (this_id s) then KString (fst (generateId r)) else k ! n)"
    by (rule freshKey_nth)
qed

theorem refresh_rewrites_every_part_witness:
  "([KString ''sessions'', KString ''A'', KString ''A'', KString ''x''], ''self'') \<in>
     set (fst (kv_list (key (example_session ''A'' (KString ''sessions'') example_kv))
                       (this_kv (example_session ''A'' (KString ''sessions'') example_kv)))) \<and>
   KvSet [KString ''sessions'', KString ''00000000000000000000000000000000'', KString ''00000000000000000000000000000000'', KString ''x''] ''self'' \<in>
     set (calls_since (this_kv (example_session ''A'' (KString ''sessions'') example_kv))
        (this_kv (fst (snd (refresh (example_session ''A'' (KString ''sessions'') example_kv)
                                    (sconst 0))))))"
  using refresh_rewrites_every_part [of "example_session ''A'' (KString ''sessions'') example_kv"
      "sconst 0"]
  by (simp add: example_kv_list generateId_sconst_0 freshKey_def)

text \<open>
  C6. Take any entry \<open>(k, v)\<close> that \<open>refresh\<close> enumerates, with the entries \<open>pre\<close> before
  it and \<open>post\<close> after it. The loop first writes \<open>v\<close> under the rewritten key and then
  deletes \<open>k\<close>. Before the write \<open>v\<close> is still under \<open>k\<close>; between the write and the
  delete it is under the rewritten key and under \<open>k\<close>; the delete removes \<open>k\<close>.
\<close>

theorem refresh_write_before_delete:
  assumes "fst (kv_list (key s) (this_kv s)) = pre @ (k, v) # post"
  shows "let i = this_id s; f = fst (generateId r);
             before = refresh_loop i f pre (snd (kv_list (key s) (this_kv s)));
             mid = kv_set (freshKey i f k) v before;
             after = kv_delete k mid
         in this_kv (fst (snd (refresh s r))) = refresh_loop i f post after \<and>
            calls mid = calls before @ [KvSet (freshKey i f k) v] \<and>
            calls after = calls mid @ [KvDelete k] \<and>
            DAList.lookup (entries before) k = Some v \<and>
            DAList.lookup (entries mid) (freshKey i f k) = Some v \<and>
            DAList.lookup (entries mid) k = Some v \<and>
            DAList.lookup (entries after) k = None"
proof -
  define i where "i = this_id s"
  define f where "f = fst (generateId r)"
  define h0 where "h0 = snd (kv_list (key s) (this_kv s))"
  define before where "before = refresh_loop i f pre h0"
  define mid where "mid = kv_set (freshKey i f k) v before"
  define after where "after = kv_delete k mid"
  have p: "key s = this_keyspace s @ [KString i]" by (simp add: key_def i_def)
  have kv: "(k, v) \<in> set (fst (kv_list (key s) (this_kv s)))" by (simp add: assms)
  have "this_kv (fst (snd (refresh s r))) = refresh_loop i f (pre @ (k, v) # post) h0"
    by (simp add: refresh_unfold assms i_def f_def h0_def)
  then have 1: "this_kv (fst (snd (refresh s r))) = refresh_loop i f post after"
    by (simp add: refresh_loop_append before_def mid_def after_def)
  have "distinct (map fst (pre @ (k, v) # post))"
    using distinct_kv_list [of "key s" "this_kv s"] by (simp add: assms)
  then have notin: "k \<notin> fst ` set pre" by auto
  have "k \<notin> freshKey i f ` fst ` set pre"
  proof
    assume "k \<in> freshKey i f ` fst ` set pre"
    then obtain k' v' where k': "(k', v') \<in> set pre" and eq: "freshKey i f k' = k" by force
    then have "(k', v') \<in> set (fst (kv_list (key s) (this_kv s)))" by (simp add: assms)
    then have "prefix (key s) k'" by (rule kv_list_prefix)
    moreover have "prefix (key s) k" using kv by (rule kv_list_prefix)
    ultimately have "k' = k" using eq unfolding p by (metis freshKey_same_prefix)
    with k' notin show False by force
  qed
  with notin have "DAList.lookup (entries before) k = DAList.lookup (entries h0) k"
    unfolding before_def by (rule refresh_loop_frame)
  moreover have "DAList.lookup (entries h0) k = Some v"
    using kv by (simp add: h0_def in_kv_list_iff)
  ultimately have 2: "DAList.lookup (entries before) k = Some v" by simp
  have 3: "DAList.lookup (entries mid) (freshKey i f k) = Some v"
    by (simp add: mid_def lookup_kv_set)
  have 4: "DAList.lookup (entries mid) k = Some v"
    using 2 by (simp add: mid_def lookup_kv_set)
  have 5: "DAList.lookup (entries after) k = None"
    by (simp add: after_def lookup_kv_delete)
  have 6: "calls mid = calls before @ [KvSet (freshKey i f k) v]"
    by (simp add: mid_def)
  have 7: "calls after = calls mid @ [KvDelete k]"
    by (simp add: after_def)
  from 1 2 3 4 5 6 7 show ?thesis
    unfolding Let_def i_def f_def h0_def before_def mid_def after_def by (intro conjI)
qed

theorem refresh_write_before_delete_witness:
  "fst (kv_list (key (example_session ''A'' (KString ''sessions'') example_kv))
                (this_kv (example_session ''A'' (KString ''sessions'') example_kv))) =
     [([KString ''sessions'', KString ''A'', KString ''A'', KString ''x''], ''self'')] @
     ([KString ''sessions'', KString ''A'', KString ''name''], ''bob'') # [] \<and>
   (let before = refresh_loop ''A'' ''00000000000000000000000000000000''
                   [([KString ''sessions'', KString ''A'', KString ''A'', KString ''x''], ''self'')]
                   (snd (kv_list [KString ''sessions'', KString ''A''] example_kv));
        mid = kv_set [KString ''sessions'', KString ''00000000000000000000000000000000'', KString ''name''] ''bob'' before
    in DAList.lookup (entries before)
         [KString ''sessions'', KString ''A'', KString ''name''] = Some ''bob'' \<and>
       DAList.lookup (entries mid)
         [KString ''sessions'', KString ''00000000000000000000000000000000'', KString ''name''] = Some ''bob'' \<and>
       DAList.lookup (entries mid)
         [KString ''sessions'', KString ''A'', KString ''name''] = Some ''bob'' \<and>
       calls (kv_delete [KString ''sessions'', KString ''A'', KString ''name''] mid) =
         calls before @
         [KvSet [KString ''sessions'', KString ''00000000000000000000000000000000'', KString ''name''] ''bob'',
          KvDelete [KString ''sessions'', KString ''A'', KString ''name'']])"
  using refresh_write_before_delete [of "example_session ''A'' (KString ''sessions'') example_kv"
      "[([KString ''sessions'', KString ''A'', KString ''A'', KString ''x''], ''self'')]"
      "[KString ''sessions'', KString ''A'', KString ''name'']" "''bob''" "[]"
      "sconst 0"]
  by (simp add: example_kv_list generateId_sconst_0 freshKey_def Let_def)

text \<open>
  C2. The claim: after \<open>refresh\<close> every entry listed under the old id is present under
  the new id with the same value. Three calls where it is not. A session whose key space is
  the string of its id: the entry is rewritten in both places, lands outside the key space
  and the session lists nothing. A session whose random source returns the bytes of its
  current id: the entry is written and deleted under the same key, and the store is empty.
  A session holding one entry whose sub-key is the id to come and one whose sub-key is its
  id: both are rewritten to the same key, and the value \<open>two\<close>, written first, is lost.
\<close>

theorem refresh_counterexample:
  "fst (kv_list
      (key (example_session ''A'' (KString ''A'')
              (example_store [([KString ''A'', KString ''A'', KString ''name''], ''bob'')])))
      (this_kv (example_session ''A'' (KString ''A'')
              (example_store [([KString ''A'', KString ''A'', KString ''name''], ''bob'')])))) =
     [([KString ''A'', KString ''A'', KString ''name''], ''bob'')] \<and>
   fst (list_entries (fst (snd (refresh
      (example_session ''A'' (KString ''A'')
         (example_store [([KString ''A'', KString ''A'', KString ''name''], ''bob'')]))
      (sconst 0))))) = [] \<and>
   DAList.impl_of (entries (this_kv (fst (snd (refresh
      (example_session ''A'' (KString ''A'')
         (example_store [([KString ''A'', KString ''A'', KString ''name''], ''bob'')]))
      (sconst 0)))))) =
     [([KString ''00000000000000000000000000000000'', KString ''00000000000000000000000000000000'', KString ''name''], ''bob'')] \<and>
   fst (kv_list
      (key (example_session ''00000000000000000000000000000000'' (KString ''sessions'')
              (example_store [([KString ''sessions'', KString ''00000000000000000000000000000000'', KString ''name''], ''bob'')])))
      (this_kv (example_session ''00000000000000000000000000000000'' (KString ''sessions'')
              (example_store [([KString ''sessions'', KString ''00000000000000000000000000000000'', KString ''name''], ''bob'')])))) =
     [([KString ''sessions'', KString ''00000000000000000000000000000000'', KString ''name''], ''bob'')] \<and>
   DAList.impl_of (entries (this_kv (fst (snd (refresh
      (example_session ''00000000000000000000000000000000'' (KString ''sessions'')
         (example_store [([KString ''sessions'', KString ''00000000000000000000000000000000'', KString ''name''], ''bob'')]))
      (sconst 0)))))) = []
     \<and>
   fst (kv_list
      (key (example_session ''A'' (KString ''sessions'')
              (example_store [([KString ''sessions'', KString ''A'', KString ''00000000000000000000000000000000''], ''two''),
                              ([KString ''sessions'', KString ''A'', KString ''A''], ''one'')])))
      (this_kv (example_session ''A'' (KString ''sessions'')
              (example_store [([KString ''sessions'', KString ''A'', KString ''00000000000000000000000000000000''], ''two''),
                              ([KString ''sessions'', KString ''A'', KString ''A''], ''one'')])))) =
     [([KString ''sessions'', KString ''A'', KString ''00000000000000000000000000000000''], ''two''),
      ([KString ''sessions'', KString ''A'', KString ''A''], ''one'')] \<and>
   DAList.impl_of (entries (this_kv (fst (snd (refresh
      (example_session ''A'' (KString ''sessions'')
         (example_store [([KString ''sessions'', KString ''A'', KString ''00000000000000000000000000000000''], ''two''),
                         ([KString ''sessions'', KString ''A'', KString ''A''], ''one'')]))
      (sconst 0)))))) =
     [([KString ''sessions'', KString ''00000000000000000000000000000000'', KString ''00000000000000000000000000000000''], ''one'')]"
  by (simp add: refresh_unfold list_entries_unfold generateId_sconst_0 kv_list_def selects_def
        example_store_impl key_def freshKey_def kv_set_def kv_delete_def
        DAList.update.rep_eq DAList.delete.rep_eq)

text \<open>
  C2 (amended). After \<open>refresh\<close>, listing the old id's prefix gives the empty sequence,
  and \<open>refresh\<close> returns the generated id, which is the session's id afterwards. If the
  old id is not a part of the key space, the generated id differs from the old id, and no
  two entries listed under the old id are rewritten to the same key, then every such entry
  \<open>key @ sub \<mapsto> v\<close> is found with the value \<open>v\<close> under the new id, at the sub-key \<open>sub\<close>
  with the old id replaced by the new one. The last condition holds whenever the generated
  id is not a part of a listed key (\<open>unused_id_distinct_targets\<close>).
\<close>

theorem refresh_moves_entries:
  "fst (kv_list (key s) (this_kv (fst (snd (refresh s r))))) = [] \<and>
   fst (refresh s r) = fst (generateId r) \<and>
   this_id (fst (snd (refresh s r))) = fst (refresh s r) \<and>
   (KString (this_id s) \<notin> set (this_keyspace s) \<and>
    fst (generateId r) \<noteq> this_id s \<and>
    inj_on (freshKey (this_id s) (fst (generateId r)))
      (fst ` set (fst (kv_list (key s) (this_kv s)))) \<longrightarrow>
    (\<forall>(k, v) \<in> set (fst (kv_list (key s) (this_kv s))).
       \<exists>sub. k = key s @ sub \<and>
         DAList.lookup (entries (this_kv (fst (snd (refresh s r)))))
           (key (fst (snd (refresh s r))) @ freshKey (this_id s) (fst (generateId r)) sub) =
         Some v))"
proof (intro conjI impI)
  show "fst (kv_list (key s) (this_kv (fst (snd (refresh s r))))) = []"
    by (rule refresh_old_prefix_empty)
  show "fst (refresh s r) = fst (generateId r)"
    by (simp add: refresh_id)
  show "this_id (fst (snd (refresh s r))) = fst (refresh s r)"
    by (simp add: refresh_id)
next
  assume h: "KString (this_id s) \<notin> set (this_keyspace s) \<and>
    fst (generateId r) \<noteq> this_id s \<and>
    inj_on (freshKey (this_id s) (fst (generateId r)))
      (fst ` set (fst (kv_list (key s) (this_kv s))))"
  show "\<forall>(k, v) \<in> set (fst (kv_list (key s) (this_kv s))).
       \<exists>sub. k = key s @ sub \<and>
         DAList.lookup (entries (this_kv (fst (snd (refresh s r)))))
           (key (fst (snd (refresh s r))) @ freshKey (this_id s) (fst (generateId r)) sub) =
         Some v"
  proof (intro ballI, clarify)
    fix k v assume "(k, v) \<in> set (fst (kv_list (key s) (this_kv s)))"
    with h show "\<exists>sub. k = key s @ sub \<and>
         DAList.lookup (entries (this_kv (fst (snd (refresh s r)))))
           (key (fst (snd (refresh s r))) @ freshKey (this_id s) (fst (generateId r)) sub) =
         Some v"
      by (intro refresh_entry_moved) simp_all
  qed
qed

theorem refresh_moves_entries_witness:
  "KString (this_id (example_session ''A'' (KString ''sessions'') example_kv)) \<notin>
     set (this_keyspace (example_session ''A'' (KString ''sessions'') example_kv)) \<and>
   fst (generateId (sconst 0)) \<noteq> this_id (example_session ''A'' (KString ''sessions'') example_kv) \<and>
   inj_on (freshKey (this_id (example_session ''A'' (KString ''sessions'') example_kv))
             (fst (generateId (sconst 0))))
     (fst ` set (fst (kv_list (key (example_session ''A'' (KString ''sessions'') example_kv))
                        (this_kv (example_session ''A'' (KString ''sessions'') example_kv))))) \<and>
   DAList.lookup
     (entries (this_kv (fst (snd (refresh (example_session ''A'' (KString ''sessions'') example_kv)
                                          (sconst 0))))))
     [KString ''sessions'', KString ''00000000000000000000000000000000'', KString ''name''] =
   Some ''bob'' \<and>
   DAList.lookup
     (entries (this_kv (fst (snd (refresh (example_session ''A'' (KString ''sessions'') example_kv)
                                          (sconst 0))))))
     [KString ''sessions'', KString ''00000000000000000000000000000000'', KString ''00000000000000000000000000000000'', KString ''x''] =
   Some ''self'' \<and>
   fst (kv_list [KString ''sessions'', KString ''A'']
     (this_kv (fst (snd (refresh (example_session ''A'' (KString ''sessions'') example_kv)
                                 (sconst 0)))))) = []"
  using refresh_moves_entries [of "example_session ''A'' (KString ''sessions'') example_kv" "sconst 0"]
  by (simp add: example_kv_list generateId_sconst_0 key_def freshKey_def refresh_id)

section \<open>Destroying a session\<close>

text \<open>
  C3. The claim: after \<open>destroy\<close> the session's id differs from the id before, and a
  \<open>get\<close> under the new id for a key that existed under the old id returns not-found.
  A session whose random source returns the bytes of its current id keeps that id. A store
  that already holds an entry under the generated id answers a \<open>get\<close> for \<open>name\<close> with that
  entry.
\<close>

theorem destroy_counterexample:
  "this_id (fst (destroy
      (example_session ''00000000000000000000000000000000'' (KString ''sessions'')
         (example_store [([KString ''sessions'', KString ''00000000000000000000000000000000'', KString ''name''], ''bob'')]))
      (sconst 0))) =
   this_id (example_session ''00000000000000000000000000000000'' (KString ''sessions'')
         (example_store [([KString ''sessions'', KString ''00000000000000000000000000000000'', KString ''name''], ''bob'')])) \<and>
   fst (get (Part (KString ''name''))
      (example_session ''A'' (KString ''sessions'')
         (example_store [([KString ''sessions'', KString ''00000000000000000000000000000000'', KString ''name''], ''eve''),
                         ([KString ''sessions'', KString ''A'', KString ''name''], ''bob'')]))) =
     Some ''bob'' \<and>
   fst (get (Part (KString ''name''))
      (fst (destroy
         (example_session ''A'' (KString ''sessions'')
            (example_store [([KString ''sessions'', KString ''00000000000000000000000000000000'', KString ''name''], ''eve''),
                            ([KString ''sessions'', KString ''A'', KString ''name''], ''bob'')]))
         (sconst 0)))) =
     Some ''eve''"
  by (simp add: destroy_id generateId_sconst_0 get_unfold destroy_unfold destroy_loop_lookup
        kv_list_def selects_def example_store_impl example_store_lookup lookup_kv_delete key_def
        normalize_key_def)

text \<open>
  C3 (amended). After \<open>destroy\<close>, listing the old id's prefix gives the empty sequence
  and the session's id is the generated one, so it differs from the old id whenever the
  generated id does. If no entry of the store has a key that starts with the key space and
  the generated id, the session lists no entry and every \<open>get\<close> returns not-found.
\<close>

theorem destroy_empties_namespace:
  "fst (kv_list (key s) (this_kv (fst (destroy s r)))) = [] \<and>
   this_id (fst (destroy s r)) = fst (generateId r) \<and>
   (fst (generateId r) \<noteq> this_id s \<longrightarrow> this_id (fst (destroy s r)) \<noteq> this_id s) \<and>
   ((\<forall>(k, v) \<in> set (DAList.impl_of (entries (this_kv s))).
        \<not> prefix (this_keyspace s @ [KString (fst (generateId r))]) k) \<longrightarrow>
    fst (list_entries (fst (destroy s r))) = [] \<and>
    (\<forall>sk. fst (get sk (fst (destroy s r))) = None))"
proof (intro conjI impI allI)
  show "fst (kv_list (key s) (this_kv (fst (destroy s r)))) = []"
    by (rule destroy_old_prefix_empty)
  show id: "this_id (fst (destroy s r)) = fst (generateId r)"
    by (rule destroy_id)
  show "this_id (fst (destroy s r)) \<noteq> this_id s" if "fst (generateId r) \<noteq> this_id s"
    using that by (simp add: id)
next
  assume unused: "\<forall>(k, v) \<in> set (DAList.impl_of (entries (this_kv s))).
        \<not> prefix (this_keyspace s @ [KString (fst (generateId r))]) k"
  have key': "key (fst (destroy s r)) = this_keyspace s @ [KString (fst (generateId r))]"
    by (simp add: key_def destroy_id destroy_unfold)
  have none: "DAList.lookup (entries (this_kv (fst (destroy s r)))) k = None"
    if "prefix (key (fst (destroy s r))) k" for k
  proof (rule destroy_lookup_subset)
    show "DAList.lookup (entries (this_kv s)) k = None"
    proof (cases "DAList.lookup (entries (this_kv s)) k")
      case (Some v)
      then have "map_of (DAList.impl_of (entries (this_kv s))) k = Some v"
        by (simp only: DAList.lookup.rep_eq)
      then have "(k, v) \<in> set (DAList.impl_of (entries (this_kv s)))"
        by (rule map_of_SomeD)
      with unused that show ?thesis by (auto simp: key')
    qed simp
  qed
  have "fst (kv_list (key (fst (destroy s r))) (this_kv (fst (destroy s r)))) = []"
    unfolding kv_list_empty_iff
  proof (intro allI impI)
    fix k assume "selects (exact_match (this_kv (fst (destroy s r)))) (key (fst (destroy s r))) k"
    then have "prefix (key (fst (destroy s r))) k" by (rule selects_prefix)
    then show "DAList.lookup (entries (this_kv (fst (destroy s r)))) k = None" by (rule none)
  qed
  then show "fst (list_entries (fst (destroy s r))) = []"
    by (simp only: list_entries_unfold fst_conv)
  fix sk
  have "prefix (key (fst (destroy s r))) (key (fst (destroy s r)) @ normalize_key sk)" by simp
  then have "DAList.lookup (entries (this_kv (fst (destroy s r))))
               (key (fst (destroy s r)) @ normalize_key sk) = None"
    by (rule none)
  then show "fst (get sk (fst (destroy s r))) = None"
    by (simp only: get_unfold fst_conv)
qed

theorem destroy_empties_namespace_witness:
  "fst (generateId (sconst 0)) \<noteq> this_id (example_session ''A'' (KString ''sessions'') example_kv) \<and>
   list_all
     (\<lambda>(k, v). \<not> prefix (this_keyspace (example_session ''A'' (KString ''sessions'') example_kv) @
                            [KString (fst (generateId (sconst 0)))]) k)
     (DAList.impl_of (entries (this_kv (example_session ''A'' (KString ''sessions'') example_kv)))) \<and>
   this_id (fst (destroy (example_session ''A'' (KString ''sessions'') example_kv) (sconst 0))) \<noteq> ''A'' \<and>
   fst (kv_list [KString ''sessions'', KString ''A'']
          (this_kv (fst (destroy (example_session ''A'' (KString ''sessions'') example_kv)
                                 (sconst 0))))) = [] \<and>
   fst (get (Part (KString ''name''))
          (fst (destroy (example_session ''A'' (KString ''sessions'') example_kv) (sconst 0)))) = None"
  using destroy_empties_namespace [of "example_session ''A'' (KString ''sessions'') example_kv"
      "sconst 0"]
  by (simp add: example_kv_impl generateId_sconst_0)

end
